theory Spec2Isabelle
  imports Main "HOL-Library.Sublist"
begin

section \<open>Errors and effects\<close>

text \<open>
  A value thrown by the program is an \<open>Error\<close> object: its message and, for the HTTP
  faults of the model client, its \<open>status\<close> field (absent on a plain \<open>Error\<close>).
  A fallible operation returns \<open>Inl\<close> of the thrown error or \<open>Inr\<close> of its value.
\<close>

datatype js_error = JsError (message: string) (status: "int option")

text \<open>
  The effects \<open>retryWithBackoff\<close> performs: an invocation of the wrapped operation and
  a sleep of the given number of milliseconds (\<open>setTimeout\<close>). The \<open>console.log\<close>
  lines are not modelled.
\<close>

datatype event = Invoke | Sleep int

text \<open>
  The outside world (model service, database, clock) is a value of an arbitrary type
  \<open>'w\<close> that every external call reads and replaces; \<open>trace\<close> lists the events so far,
  oldest first.
\<close>

record 'w io =
  world :: 'w
  trace :: "event list"

type_synonym ('w, 'a) operation = "'w \<Rightarrow> (js_error + 'a) \<times> 'w"

definition invoke :: "('w, 'a) operation \<Rightarrow> 'w io \<Rightarrow> (js_error + 'a) \<times> 'w io" where
  "invoke fn s =
     (case fn (world s) of
        (r, w') \<Rightarrow> (r, s\<lparr>world := w', trace := trace s @ [Invoke]\<rparr>))"

definition sleep :: "int \<Rightarrow> 'w io \<Rightarrow> 'w io" where
  "sleep delay s = s\<lparr>trace := trace s @ [Sleep delay]\<rparr>"

section \<open>Retry policy: \<open>retryWithBackoff\<close>\<close>

text \<open>
  \<open>agent.ts\<close>, lines 20 to 35. The loop variable \<open>attempt\<close> starts at 1 and the loop
  runs while \<open>attempt <= maxRetries\<close>; \<open>maxRetries\<close> is modelled as an integer.
\<close>

definition backoff_delay :: "int \<Rightarrow> int" where
  "backoff_delay attempt = min (1000 * 2 ^ nat attempt) 30000"

function retry_loop ::
  "('w, 'a) operation \<Rightarrow> int \<Rightarrow> int \<Rightarrow> 'w io \<Rightarrow> (js_error + 'a) \<times> 'w io" where
  "retry_loop fn maxRetries attempt s =
     (if attempt \<le> maxRetries then
        (case invoke fn s of
           (Inr v, s1) \<Rightarrow> (Inr v, s1)
         | (Inl error, s1) \<Rightarrow>
             if status error = Some 429 \<and> attempt < maxRetries then
               retry_loop fn maxRetries (attempt + 1) (sleep (backoff_delay attempt) s1)
             else (Inl error, s1))
      else (Inl (JsError ''Max retries exceeded'' None), s))"
  by pat_completeness auto
termination
  by (relation "measure (\<lambda>(fn, maxRetries, attempt, s). nat (maxRetries + 1 - attempt))") auto

declare retry_loop.simps [simp del]

definition retryWithBackoff ::
  "('w, 'a) operation \<Rightarrow> int \<Rightarrow> 'w io \<Rightarrow> (js_error + 'a) \<times> 'w io" where
  "retryWithBackoff fn maxRetries s = retry_loop fn maxRetries 1 s"

subsection \<open>Describing runs of the policy\<close>

text \<open>
  \<open>after_rate_limits fn k w = Some (r, w')\<close>: started in world \<open>w\<close>, the operation fails
  with a rate-limit fault (status 429) exactly \<open>k\<close> times in a row, and its next call
  has the outcome \<open>r\<close> and leaves the world \<open>w'\<close>.
\<close>

fun after_rate_limits ::
  "('w, 'a) operation \<Rightarrow> nat \<Rightarrow> 'w \<Rightarrow> ((js_error + 'a) \<times> 'w) option" where
  "after_rate_limits fn 0 w = Some (fn w)"
| "after_rate_limits fn (Suc k) w =
     (case fn w of
        (Inl e, w') \<Rightarrow> if status e = Some 429 then after_rate_limits fn k w' else None
      | (Inr v, w') \<Rightarrow> None)"

text \<open>The number of invocations in a trace, and the delays slept, oldest first.\<close>

definition attempts :: "event list \<Rightarrow> nat" where
  "attempts t = length (filter (\<lambda>e. e = Invoke) t)"

fun sleeps :: "event list \<Rightarrow> int list" where
  "sleeps [] = []"
| "sleeps (Invoke # t) = sleeps t"
| "sleeps (Sleep d # t) = d # sleeps t"

text \<open>
  The trace of a run that starts at loop index \<open>a\<close> and meets \<open>k\<close> rate-limit faults
  before its last invocation.
\<close>

fun backoff_trace :: "int \<Rightarrow> nat \<Rightarrow> event list" where
  "backoff_trace a 0 = [Invoke]"
| "backoff_trace a (Suc k) = Invoke # Sleep (backoff_delay a) # backoff_trace (a + 1) k"

text \<open>
  An outcome ends the loop when it is a success, a fault other than a rate limit, or
  any fault on the last permitted attempt.
\<close>

definition settles :: "js_error + 'a \<Rightarrow> bool \<Rightarrow> bool" where
  "settles r is_last = (case r of Inr v \<Rightarrow> True | Inl e \<Rightarrow> status e \<noteq> Some 429 \<or> is_last)"

text \<open>
  An operation whose outcomes are scripted: the world is the list of outcomes still to
  come, and each call takes the first one. Used to run the policy on concrete inputs.
\<close>

definition scripted :: "((js_error + 'a) list, 'a) operation" where
  "scripted w =
     (case w of
        [] \<Rightarrow> (Inl (JsError ''script exhausted'' None), [])
      | r # rest \<Rightarrow> (r, rest))"

definition rate_limited :: js_error where
  "rate_limited = JsError ''Too Many Requests'' (Some 429)"

section \<open>Data model\<close>

text \<open>
  JSON values, for tool arguments, inventory documents and the payloads the search tool
  serialises. Numbers are modelled as integers.
\<close>

datatype json =
    JNull
  | JBool bool
  | JNumber int
  | JString string
  | JArray "json list"
  | JObject "(string \<times> json) list"

record tool_call =
  tc_id :: string
  tc_name :: string
  tc_args :: json

text \<open>
  The message classes of the conversation. Only an \<open>AIMessage\<close> has a \<open>tool_calls\<close>
  field, and it may be absent; on the other classes reading it gives \<open>undefined\<close>
  (\<open>None\<close>).
\<close>

datatype message =
    HumanMessage (content: string)
  | AIMessage (content: string) "tool_call list option"
  | ToolMessage (content: string) string

datatype role = Human | Ai | Tool

fun role_of :: "message \<Rightarrow> role" where
  "role_of (HumanMessage c) = Human"
| "role_of (AIMessage c tcs) = Ai"
| "role_of (ToolMessage c i) = Tool"

fun tool_calls :: "message \<Rightarrow> tool_call list option" where
  "tool_calls (AIMessage c tcs) = tcs"
| "tool_calls (HumanMessage c) = None"
| "tool_calls (ToolMessage c i) = None"

text \<open>\<open>GraphState\<close> (lines 44 to 48): the message list, merged by concatenation.\<close>

record GraphState =
  messages :: "message list"

definition reducer :: "message list \<Rightarrow> message list \<Rightarrow> message list" where
  "reducer x y = x @ y"

text \<open>The argument object of the search tool after destructuring: \<open>{ query, n }\<close>.\<close>

record search_args =
  sq_query :: string
  sq_n :: "int option"

section \<open>External collaborators\<close>

text \<open>
  The filter document handed to \<open>collection.find\<close>: a \<open>$regex\<close> test of one field
  (field name, pattern, options) or an \<open>$or\<close> of filters.
\<close>

datatype mongo_filter =
    RegexFilter string string string
  | OrFilter "mongo_filter list"

text \<open>
  A value thrown by a collaborator of the search tool, as the tool's \<open>catch\<close> block
  sees it (\<open>catch (error: any)\<close>): \<open>null\<close> or \<open>undefined\<close>, or any other value, of
  which the block reads the \<open>message\<close> property only; the property is \<open>None\<close> when the
  value has none, as for a thrown string.
\<close>

datatype thrown = Nullish | Thrown "json option"

type_synonym ('w, 'a) call = "'w \<Rightarrow> (thrown + 'a) \<times> 'w"

text \<open>
  What the program calls but does not define, as parameters: the language model, the
  conversation restored by the checkpointer for a thread, the inventory collection,
  the vector store (its construction, the embedding of the query and the similarity
  search together) and \<open>JSON.stringify\<close>. Each call may fail and may change the world.

  A fault of the model call is a \<open>js_error\<close>: the \<open>catch\<close> of \<open>retryWithBackoff\<close> reads
  \<open>error.status\<close>, so a rejection with \<open>null\<close> or \<open>undefined\<close> leaves it at once as a
  \<open>TypeError\<close>, and is represented by that error.
\<close>

record 'w env =
  model_invoke :: "message list \<Rightarrow> ('w, message) operation"
  load_checkpoint :: "string \<Rightarrow> 'w \<Rightarrow> message list"
  countDocuments :: "('w, nat) call"
  similaritySearchWithScore :: "string \<Rightarrow> int \<Rightarrow> ('w, json list) call"
  collection_find :: "mongo_filter \<Rightarrow> int \<Rightarrow> ('w, json list) call"
  JSON_stringify :: "json \<Rightarrow> string"

section \<open>Inventory search tool: \<open>itemLookupTool\<close>\<close>

text \<open>The four objects the tool serialises (lines 57, 86 to 91, 94 to 99, 103 to 107).\<close>

definition empty_inventory_payload :: json where
  "empty_inventory_payload =
     JObject [(''error'', JString ''No items found in inventory''),
              (''message'', JString ''The inventory database appears to be empty''),
              (''count'', JNumber 0)]"

definition results_payload :: "json list \<Rightarrow> string \<Rightarrow> string \<Rightarrow> json" where
  "results_payload results searchType query =
     JObject [(''results'', JArray results),
              (''searchType'', JString searchType),
              (''query'', JString query),
              (''count'', JNumber (int (length results)))]"

text \<open>
  The object of the \<open>catch\<close> block, given the \<open>message\<close> property of the thrown value;
  a property that is \<open>undefined\<close> is left out by the serialisation.
\<close>

definition failure_payload :: "json option \<Rightarrow> string \<Rightarrow> json" where
  "failure_payload msg query =
     JObject ([(''error'', JString ''Failed to search inventory'')]
              @ (case msg of None \<Rightarrow> [] | Some v \<Rightarrow> [(''details'', v)])
              @ [(''query'', JString query)])"

text \<open>The filter of the lexical fallback (lines 77 to 84): the query is the pattern.\<close>

definition text_filter :: "string \<Rightarrow> mongo_filter" where
  "text_filter query =
     OrFilter [RegexFilter ''item_name'' query ''i'',
               RegexFilter ''item_description'' query ''i'',
               RegexFilter ''categories'' query ''i'',
               RegexFilter ''embedding_text'' query ''i'']"

text \<open>The body of the \<open>try\<close> block (lines 54 to 99).\<close>

definition item_lookup_try :: "'w env \<Rightarrow> string \<Rightarrow> int \<Rightarrow> ('w, string) call" where
  "item_lookup_try env query n w =
     (case countDocuments env w of
        (Inl e, w1) \<Rightarrow> (Inl e, w1)
      | (Inr totalCount, w1) \<Rightarrow>
          if totalCount = 0 then (Inr (JSON_stringify env empty_inventory_payload), w1)
          else
            (case similaritySearchWithScore env query n w1 of
               (Inl e, w2) \<Rightarrow> (Inl e, w2)
             | (Inr result, w2) \<Rightarrow>
                 if length result = 0 then
                   (case collection_find env (text_filter query) n w2 of
                      (Inl e, w3) \<Rightarrow> (Inl e, w3)
                    | (Inr textResults, w3) \<Rightarrow>
                        (Inr (JSON_stringify env (results_payload textResults ''text'' query)), w3))
                 else (Inr (JSON_stringify env (results_payload result ''vector'' query)), w2)))"

text \<open>
  The tool function (lines 52 to 109): the default of \<open>n\<close>, the body, the \<open>catch\<close>.
  The \<open>catch\<close> block reads \<open>error.message\<close> without a guard, which throws a
  \<open>TypeError\<close> when the thrown value is \<open>null\<close> or \<open>undefined\<close>.
\<close>

definition TypeError_nullish :: js_error where
  "TypeError_nullish = JsError ''Cannot read properties of undefined'' None"

definition itemLookupTool :: "'w env \<Rightarrow> search_args \<Rightarrow> ('w, string) operation" where
  "itemLookupTool env args w =
     (let query = sq_query args;
          n = (case sq_n args of None \<Rightarrow> 10 | Some v \<Rightarrow> v)
      in case item_lookup_try env query n w of
           (Inr s, w') \<Rightarrow> (Inr s, w')
         | (Inl Nullish, w') \<Rightarrow> (Inl TypeError_nullish, w')
         | (Inl (Thrown msg), w') \<Rightarrow>
             (Inr (JSON_stringify env (failure_payload msg query)), w'))"


section \<open>The declared schema of the tool\<close>

text \<open>
  The schema combinators the declaration uses (lines 113 to 116), with the behaviour of
  the validation library: \<open>optional\<close> lets an absent value through, \<open>default\<close> replaces
  an absent value before the inner schema sees it, an object schema validates each
  declared key and drops the others. \<open>None\<close> is \<open>undefined\<close>.
\<close>

datatype zod =
    ZString
  | ZNumber
  | ZOptional zod
  | ZDefault zod json
  | ZObject "(string \<times> zod) list"

definition ZodError :: "string \<Rightarrow> js_error" where
  "ZodError msg = JsError msg None"

fun zod_parse :: "zod \<Rightarrow> json option \<Rightarrow> js_error + json option"
and zod_parse_fields ::
  "(string \<times> zod) list \<Rightarrow> (string \<times> json) list \<Rightarrow> js_error + (string \<times> json) list" where
  "zod_parse ZString v =
     (case v of Some (JString s) \<Rightarrow> Inr (Some (JString s))
              | _ \<Rightarrow> Inl (ZodError ''Expected string''))"
| "zod_parse ZNumber v =
     (case v of Some (JNumber x) \<Rightarrow> Inr (Some (JNumber x))
              | _ \<Rightarrow> Inl (ZodError ''Expected number''))"
| "zod_parse (ZOptional t) v =
     (case v of None \<Rightarrow> Inr None | Some x \<Rightarrow> zod_parse t (Some x))"
| "zod_parse (ZDefault t d) v =
     (case v of None \<Rightarrow> zod_parse t (Some d) | Some x \<Rightarrow> zod_parse t (Some x))"
| "zod_parse (ZObject fs) v =
     (case v of
        Some (JObject kvs) \<Rightarrow>
          (case zod_parse_fields fs kvs of
             Inl e \<Rightarrow> Inl e
           | Inr out \<Rightarrow> Inr (Some (JObject out)))
      | _ \<Rightarrow> Inl (ZodError ''Expected object''))"
| "zod_parse_fields [] kvs = Inr []"
| "zod_parse_fields ((k, t) # fs) kvs =
     (case zod_parse t (map_of kvs k) of
        Inl e \<Rightarrow> Inl e
      | Inr r \<Rightarrow>
          (case zod_parse_fields fs kvs of
             Inl e \<Rightarrow> Inl e
           | Inr out \<Rightarrow> Inr (case r of None \<Rightarrow> out | Some x \<Rightarrow> (k, x) # out)))"

definition item_lookup_schema :: zod where
  "item_lookup_schema =
     ZObject [(''query'', ZString), (''n'', ZDefault (ZOptional ZNumber) (JNumber 10))]"

text \<open>Reading the validated object into the tool function's parameters.\<close>

definition as_search_args :: "json option \<Rightarrow> search_args option" where
  "as_search_args v =
     (case v of
        Some (JObject kvs) \<Rightarrow>
          (case map_of kvs ''query'' of
             Some (JString q) \<Rightarrow>
               (case map_of kvs ''n'' of
                  None \<Rightarrow> Some \<lparr>sq_query = q, sq_n = None\<rparr>
                | Some (JNumber x) \<Rightarrow> Some \<lparr>sq_query = q, sq_n = Some x\<rparr>
                | Some _ \<Rightarrow> None)
           | _ \<Rightarrow> None)
      | _ \<Rightarrow> None)"

section \<open>Orchestrator\<close>

datatype node = START | Agent | Tools | END

text \<open>
  \<open>shouldContinue\<close> (lines 131 to 138). Indexing an empty array gives \<open>undefined\<close>, and
  reading a property of it throws a \<open>TypeError\<close>.
\<close>

definition shouldContinue :: "GraphState \<Rightarrow> js_error + node" where
  "shouldContinue state =
     (let msgs = messages state in
      if msgs = [] then Inl (JsError ''Cannot read properties of undefined'' None)
      else
        (let lastMessage = last msgs in
         case tool_calls lastMessage of
           Some tcs \<Rightarrow> if length tcs \<noteq> 0 then Inr Tools else Inr END
         | None \<Rightarrow> Inr END))"

text \<open>
  \<open>callModel\<close> (lines 140 to 167): one model call on the history, under the retry
  policy with its default \<open>maxRetries = 3\<close>. The fixed system instruction and the time
  it interpolates are part of the model parameter and of the world.
\<close>

definition callModel :: "'w env \<Rightarrow> GraphState \<Rightarrow> 'w io \<Rightarrow> (js_error + message list) \<times> 'w io" where
  "callModel env state s =
     retryWithBackoff
       (\<lambda>w. case model_invoke env (messages state) w of
               (Inl e, w') \<Rightarrow> (Inl e, w')
             | (Inr result, w') \<Rightarrow> (Inr [result], w'))
       3 s"

text \<open>
  Modelled from the spec: the tool execution node (\<open>ToolNode\<close> of the graph library,
  not part of the sources). Each call of the last message is run by name against the
  single registered tool, after validation against its schema; a failed validation or
  an unknown name gives an error payload as the tool message, and the messages come
  in the order of the calls.
\<close>

definition tool_error_content :: "'w env \<Rightarrow> js_error \<Rightarrow> string" where
  "tool_error_content env e = JSON_stringify env (JObject [(''error'', JString (message e))])"

definition run_tool_call :: "'w env \<Rightarrow> tool_call \<Rightarrow> 'w \<Rightarrow> message \<times> 'w" where
  "run_tool_call env tc w =
     (if tc_name tc = ''item_lookup'' then
        (case zod_parse item_lookup_schema (Some (tc_args tc)) of
           Inl e \<Rightarrow> (ToolMessage (tool_error_content env e) (tc_id tc), w)
         | Inr parsed \<Rightarrow>
             (case as_search_args parsed of
                None \<Rightarrow>
                  (ToolMessage (tool_error_content env (ZodError ''Invalid input'')) (tc_id tc), w)
              | Some args \<Rightarrow>
                  (case itemLookupTool env args w of
                     (Inr out, w') \<Rightarrow> (ToolMessage out (tc_id tc), w')
                   | (Inl e, w') \<Rightarrow> (ToolMessage (tool_error_content env e) (tc_id tc), w'))))
      else (ToolMessage (tool_error_content env (JsError ''Tool not found'' None)) (tc_id tc), w))"

fun run_tool_calls :: "'w env \<Rightarrow> tool_call list \<Rightarrow> 'w \<Rightarrow> message list \<times> 'w" where
  "run_tool_calls env [] w = ([], w)"
| "run_tool_calls env (tc # tcs) w =
     (case run_tool_call env tc w of
        (m, w1) \<Rightarrow> (case run_tool_calls env tcs w1 of (ms, w2) \<Rightarrow> (m # ms, w2)))"

definition toolNode :: "'w env \<Rightarrow> GraphState \<Rightarrow> 'w io \<Rightarrow> (js_error + message list) \<times> 'w io" where
  "toolNode env state s =
     (let msgs = messages state in
      if msgs = [] then (Inl (JsError ''No message found in input'' None), s)
      else
        (case tool_calls (last msgs) of
           None \<Rightarrow> (Inl (JsError ''ToolNode only accepts AIMessages as input'' None), s)
         | Some tcs \<Rightarrow>
             (case run_tool_calls env tcs (world s) of
                (ms, w') \<Rightarrow> (Inr ms, s\<lparr>world := w'\<rparr>))))"

text \<open>
  The graph (lines 170 to 175): nodes \<open>agent\<close> and \<open>tools\<close>, an edge from the start to
  \<open>agent\<close>, the conditional edge \<open>shouldContinue\<close> out of \<open>agent\<close>, an edge from \<open>tools\<close>
  to \<open>agent\<close>.
\<close>

definition exec_node ::
  "'w env \<Rightarrow> node \<Rightarrow> GraphState \<Rightarrow> 'w io \<Rightarrow> (js_error + message list) \<times> 'w io" where
  "exec_node env nd state s =
     (case nd of
        Agent \<Rightarrow> callModel env state s
      | Tools \<Rightarrow> toolNode env state s
      | START \<Rightarrow> (Inr [], s)
      | END \<Rightarrow> (Inr [], s))"

definition next_node :: "node \<Rightarrow> GraphState \<Rightarrow> js_error + node" where
  "next_node nd state =
     (case nd of
        START \<Rightarrow> Inr Agent
      | Agent \<Rightarrow> shouldContinue state
      | Tools \<Rightarrow> Inr Agent
      | END \<Rightarrow> Inr END)"

definition RecursionLimitExceeded :: js_error where
  "RecursionLimitExceeded = JsError ''Recursion limit reached without hitting a stop condition'' None"

text \<open>
  Modelled from the spec: the loop of the graph runtime behind \<open>app.invoke\<close> (the graph
  library, not part of the sources). A step counter increments on every node
  execution; a node that would exceed the ceiling \<open>limit\<close> is not run and the call
  aborts with \<open>RecursionLimitExceeded\<close>. After a node, its update is merged by the
  reducer and the outgoing edge is followed; \<open>END\<close> terminates. The second component
  of the result is the number of node executions.
\<close>

function run_graph ::
  "'w env \<Rightarrow> nat \<Rightarrow> node \<Rightarrow> nat \<Rightarrow> GraphState \<Rightarrow> 'w io \<Rightarrow> (js_error + GraphState) \<times> nat \<times> 'w io" where
  "run_graph env limit nd steps state s =
     (if nd = END then (Inr state, steps, s)
      else if limit \<le> steps then (Inl RecursionLimitExceeded, steps, s)
      else
        (case exec_node env nd state s of
           (Inl e, s') \<Rightarrow> (Inl e, Suc steps, s')
         | (Inr upd, s') \<Rightarrow>
             (let state' = state\<lparr>messages := reducer (messages state) upd\<rparr> in
              case next_node nd state' of
                Inl e \<Rightarrow> (Inl e, Suc steps, s')
              | Inr nd' \<Rightarrow> run_graph env limit nd' (Suc steps) state' s')))"
  by pat_completeness auto
termination
  by (relation "measure (\<lambda>(env, limit, nd, steps, state, s). limit - steps)") auto

declare run_graph.simps [simp del]

text \<open>
  The positions the graph can be in while it runs: about to call the model, or about
  to run the tool calls carried by the last message.
\<close>

definition ready :: "node \<Rightarrow> GraphState \<Rightarrow> bool" where
  "ready nd state =
     (nd = Agent \<or>
      (nd = Tools \<and> messages state \<noteq> [] \<and> tool_calls (last (messages state)) \<noteq> None))"

text \<open>
  Modelled from the spec: entry of \<open>app.invoke\<close> (lines 180 to 188). The state restored
  for the thread is merged with the input and the graph runs from the start edge.
  What the checkpointer writes is not modelled.
\<close>

definition app_invoke ::
  "'w env \<Rightarrow> GraphState \<Rightarrow> nat \<Rightarrow> string \<Rightarrow> 'w io \<Rightarrow> (js_error + GraphState) \<times> nat \<times> 'w io" where
  "app_invoke env input recursionLimit thread_id s =
     (let state0 = \<lparr>messages = reducer (load_checkpoint env thread_id (world s)) (messages input)\<rparr>
      in case next_node START state0 of
           Inl e \<Rightarrow> (Inl e, 0, s)
         | Inr nd \<Rightarrow> run_graph env recursionLimit nd 0 state0 s)"

text \<open>
  \<open>callAgent\<close> (lines 38 to 205): the invocation with the new human message and
  \<open>recursionLimit: 15\<close> (lines 180 to 188), the response, and the classification of a
  fault.
\<close>

definition classify :: "js_error \<Rightarrow> js_error" where
  "classify error =
     (if status error = Some 429 then
        JsError ''Service temporarily unavailable due to rate limits. Please try again in a minute.'' None
      else if status error = Some 401 then
        JsError ''Authentication failed. Please check your API configuration.'' None
      else JsError (''Agent failed: '' @ message error) None)"

definition callAgent_invoke ::
  "'w env \<Rightarrow> string \<Rightarrow> string \<Rightarrow> 'w io \<Rightarrow> (js_error + GraphState) \<times> nat \<times> 'w io" where
  "callAgent_invoke env query thread_id s =
     app_invoke env \<lparr>messages = [HumanMessage query]\<rparr> 15 thread_id s"

definition callAgent :: "'w env \<Rightarrow> string \<Rightarrow> string \<Rightarrow> 'w io \<Rightarrow> (js_error + string) \<times> 'w io" where
  "callAgent env query thread_id s =
     (case callAgent_invoke env query thread_id s of
        (Inl error, steps, s') \<Rightarrow> (Inl (classify error), s')
      | (Inr finalState, steps, s') \<Rightarrow>
          (let msgs = messages finalState in
           if msgs = [] then
             (Inl (classify (JsError ''Cannot read properties of undefined'' None)), s')
           else (Inr (content (last msgs)), s')))"

section \<open>The lexical fallback on a collection held in memory\<close>

text \<open>
  To decide what the filter of the fallback selects, the inventory collection is
  modelled as the list of its documents, with the database's documented behaviour for
  the operations the tool uses: \<open>$regex\<close> searches the string value of a field (or any
  string element of an array value) for an unanchored match of the pattern, option
  \<open>i\<close> ignoring case; \<open>$or\<close> selects a document that satisfies one of its filters;
  \<open>limit n\<close> keeps the first \<open>n\<close> documents, and \<open>limit 0\<close> all of them.

  Of the pattern language, the patterns made of ordinary characters and the wildcard
  \<open>.\<close> are modelled; every other pattern is left to the parameter \<open>other\<close>, which may
  also reject it. Case folding covers the ASCII letters.
\<close>

definition to_lower :: "char \<Rightarrow> char" where
  "to_lower c =
     (let k = of_char c :: nat in if 65 \<le> k \<and> k \<le> 90 then char_of (k + 32) else c)"

text \<open>The characters with a special meaning in a pattern; \<open>0x5C\<close> is the backslash.\<close>

definition regex_meta :: "char list" where
  "regex_meta =
     [CHR ''.'', CHR ''^'', CHR ''$'', CHR ''*'', CHR ''+'', CHR ''?'', CHR ''('', CHR '')'',
      CHR ''['', CHR '']'', CHR ''{'', CHR ''}'', CHR ''|'', CHR 0x5C]"

datatype rx_atom = Lit char | AnyChar

fun parse_pattern :: "string \<Rightarrow> rx_atom list option" where
  "parse_pattern [] = Some []"
| "parse_pattern (c # cs) =
     (if c = CHR ''.'' then map_option ((#) AnyChar) (parse_pattern cs)
      else if c \<in> set regex_meta then None
      else map_option ((#) (Lit c)) (parse_pattern cs))"

fun atom_matches :: "bool \<Rightarrow> rx_atom \<Rightarrow> char \<Rightarrow> bool" where
  "atom_matches ci AnyChar c = (c \<noteq> CHR 0x0A)"
| "atom_matches ci (Lit p) c = (if ci then to_lower p = to_lower c else p = c)"

fun match_here :: "bool \<Rightarrow> rx_atom list \<Rightarrow> string \<Rightarrow> bool" where
  "match_here ci [] s = True"
| "match_here ci (p # ps) [] = False"
| "match_here ci (p # ps) (c # cs) = (atom_matches ci p c \<and> match_here ci ps cs)"

fun regex_search :: "bool \<Rightarrow> rx_atom list \<Rightarrow> string \<Rightarrow> bool" where
  "regex_search ci ps [] = match_here ci ps []"
| "regex_search ci ps (c # cs) = (match_here ci ps (c # cs) \<or> regex_search ci ps cs)"

type_synonym regex_engine = "string \<Rightarrow> string \<Rightarrow> string \<Rightarrow> js_error + bool"

definition regex_test :: "regex_engine \<Rightarrow> string \<Rightarrow> string \<Rightarrow> string \<Rightarrow> js_error + bool" where
  "regex_test other pattern options subject =
     (case parse_pattern pattern of
        None \<Rightarrow> other pattern options subject
      | Some ps \<Rightarrow>
          if options = ''i'' then Inr (regex_search True ps subject)
          else if options = [] then Inr (regex_search False ps subject)
          else other pattern options subject)"

fun json_strings :: "json list \<Rightarrow> string list" where
  "json_strings [] = []"
| "json_strings (JString s # xs) = s # json_strings xs"
| "json_strings (x # xs) = json_strings xs"

definition field_strings :: "json \<Rightarrow> string \<Rightarrow> string list" where
  "field_strings doc field =
     (case doc of
        JObject kvs \<Rightarrow>
          (case map_of kvs field of
             Some (JString s) \<Rightarrow> [s]
           | Some (JArray xs) \<Rightarrow> json_strings xs
           | _ \<Rightarrow> [])
      | _ \<Rightarrow> [])"

fun any_string :: "(string \<Rightarrow> js_error + bool) \<Rightarrow> string list \<Rightarrow> js_error + bool" where
  "any_string test [] = Inr False"
| "any_string test (s # ss) =
     (case test s of
        Inl e \<Rightarrow> Inl e
      | Inr b \<Rightarrow> if b then Inr True else any_string test ss)"

fun matches :: "regex_engine \<Rightarrow> mongo_filter \<Rightarrow> json \<Rightarrow> js_error + bool"
and matches_or :: "regex_engine \<Rightarrow> mongo_filter list \<Rightarrow> json \<Rightarrow> js_error + bool" where
  "matches other (RegexFilter field pattern options) doc =
     any_string (regex_test other pattern options) (field_strings doc field)"
| "matches other (OrFilter fs) doc = matches_or other fs doc"
| "matches_or other [] doc = Inr False"
| "matches_or other (f # fs) doc =
     (case matches other f doc of
        Inl e \<Rightarrow> Inl e
      | Inr b \<Rightarrow> if b then Inr True else matches_or other fs doc)"








section \<open>Concrete collaborators, for running the definitions\<close>

text \<open>
  A serialiser standing for \<open>JSON.stringify\<close> in the concrete runs; it writes strings
  without escaping. \<open>0x22\<close> is the double quote.
\<close>

fun show_nat :: "nat \<Rightarrow> string" where
  "show_nat k = (if k < 10 then [char_of (48 + k)] else show_nat (k div 10) @ [char_of (48 + k mod 10)])"

definition show_int :: "int \<Rightarrow> string" where
  "show_int i = (if i < 0 then CHR ''-'' # show_nat (nat (- i)) else show_nat (nat i))"

definition quoted :: "string \<Rightarrow> string" where
  "quoted s = CHR 0x22 # s @ [CHR 0x22]"

fun render :: "json \<Rightarrow> string"
and render_items :: "json list \<Rightarrow> string"
and render_fields :: "(string \<times> json) list \<Rightarrow> string" where
  "render JNull = ''null''"
| "render (JBool b) = (if b then ''true'' else ''false'')"
| "render (JNumber i) = show_int i"
| "render (JString s) = quoted s"
| "render (JArray xs) = ''['' @ render_items xs @ '']''"
| "render (JObject kvs) = ''{'' @ render_fields kvs @ ''}''"
| "render_items [] = []"
| "render_items [x] = render x"
| "render_items (x # y # xs) = render x @ '','' @ render_items (y # xs)"
| "render_fields [] = []"
| "render_fields [(k, v)] = quoted k @ '':'' @ render v"
| "render_fields ((k, v) # kv # kvs) = quoted k @ '':'' @ render v @ '','' @ render_fields (kv # kvs)"



text \<open>
  A model that asks for the search tool as many times as the world counts and then
  answers; the inventory is empty.
\<close>

definition demo_env :: "nat env" where
  "demo_env =
     \<lparr>model_invoke = (\<lambda>msgs w.
          if w = 0 then (Inr (AIMessage ''We have three sofas.'' (Some [])), w)
          else (Inr (AIMessage []
                  (Some [\<lparr>tc_id = ''call'', tc_name = ''item_lookup'',
                          tc_args = JObject [(''query'', JString ''sofa'')]\<rparr>])), w - 1)),
      load_checkpoint = (\<lambda>thread_id w. []),
      countDocuments = (\<lambda>w. (Inr 0, w)),
      similaritySearchWithScore = (\<lambda>query n w. (Inr [], w)),
      collection_find = (\<lambda>flt n w. (Inr [], w)),
      JSON_stringify = render\<rparr>"

text \<open>
  A model that asks for the search tool on every call, over an empty inventory.
\<close>

definition looping_env :: "unit env" where
  "looping_env =
     \<lparr>model_invoke = (\<lambda>msgs w.
          (Inr (AIMessage []
                  (Some [\<lparr>tc_id = ''call'', tc_name = ''item_lookup'',
                          tc_args = JObject [(''query'', JString ''sofa'')]\<rparr>])), w)),
      load_checkpoint = (\<lambda>thread_id w. []),
      countDocuments = (\<lambda>w. (Inr 0, w)),
      similaritySearchWithScore = (\<lambda>query n w. (Inr [], w)),
      collection_find = (\<lambda>flt n w. (Inr [], w)),
      JSON_stringify = render\<rparr>"




section \<open>Properties of the retry policy\<close>

lemma retry_loop_run:
  "after_rate_limits fn k w = Some (r, w') \<Longrightarrow> a + int k \<le> m \<Longrightarrow>
   settles r (a + int k = m) \<Longrightarrow>
   retry_loop fn m a \<lparr>world = w, trace = t\<rparr>
     = (r, \<lparr>world = w', trace = t @ backoff_trace a k\<rparr>)"
proof (induction k arbitrary: a w t)
  case 0
  then show ?case
    by (cases r) (auto simp: retry_loop.simps [of fn m a] invoke_def settles_def)
next
  case (Suc k)
  obtain e w1 where fw: "fn w = (Inl e, w1)" and st: "status e = Some 429"
    and rest: "after_rate_limits fn k w1 = Some (r, w')"
    using Suc.prems(1) by (auto split: prod.splits sum.splits if_splits)
  have lt: "a < m" using Suc.prems(2) by simp
  have "retry_loop fn m a \<lparr>world = w, trace = t\<rparr>
        = retry_loop fn m (a + 1) \<lparr>world = w1, trace = t @ [Invoke, Sleep (backoff_delay a)]\<rparr>"
    using fw st lt by (simp add: retry_loop.simps [of fn m a] invoke_def sleep_def)
  also have "\<dots> = (r, \<lparr>world = w',
      trace = (t @ [Invoke, Sleep (backoff_delay a)]) @ backoff_trace (a + 1) k\<rparr>)"
    using Suc.prems(2,3) by (intro Suc.IH [OF rest]) (simp_all add: algebra_simps)
  finally show ?case by simp
qed

lemma backoff_trace_upt:
  "backoff_trace (int a) k =
     concat (map (\<lambda>i. [Invoke, Sleep (backoff_delay (int i))]) [a..<a + k]) @ [Invoke]"
proof (induction k arbitrary: a)
  case 0
  show ?case by simp
next
  case (Suc k)
  have "[a..<a + Suc k] = a # [Suc a..<Suc a + k]" by (simp add: upt_rec)
  then show ?case using Suc.IH [of "Suc a"] by (simp add: add.commute del: upt_Suc)
qed

lemma attempts_backoff_trace: "attempts (backoff_trace a k) = Suc k"
  by (induction k arbitrary: a) (simp_all add: attempts_def)

lemma sleeps_backoff_trace:
  "sleeps (backoff_trace (int a) k) = map (\<lambda>i. backoff_delay (int i)) [a..<a + k]"
proof (induction k arbitrary: a)
  case 0
  show ?case by simp
next
  case (Suc k)
  have "[a..<a + Suc k] = a # [Suc a..<Suc a + k]" by (simp add: upt_rec)
  then show ?case using Suc.IH [of "Suc a"] by (simp add: add.commute del: upt_Suc)
qed

lemma backoff_trace_from_1:
  "backoff_trace 1 k
     = concat (map (\<lambda>i. [Invoke, Sleep (min (1000 * 2 ^ i) 30000)]) [1..<Suc k]) @ [Invoke]"
  using backoff_trace_upt [of 1 k] by (simp add: backoff_delay_def del: upt_Suc)

lemma sleeps_from_1:
  "sleeps (backoff_trace 1 k) = map (\<lambda>i. min (1000 * 2 ^ i) 30000) [1..<Suc k]"
  using sleeps_backoff_trace [of 1 k] by (simp add: backoff_delay_def del: upt_Suc)

lemma retry_settled:
  assumes "after_rate_limits fn k w = Some (r, w')" and "int k < maxRetries"
    and "settles r (int k + 1 = maxRetries)"
  shows "retryWithBackoff fn maxRetries \<lparr>world = w, trace = []\<rparr>
           = (r, \<lparr>world = w', trace = backoff_trace 1 k\<rparr>)"
  using retry_loop_run [of fn k w r w' 1 maxRetries "[]"] assms
  by (simp add: retryWithBackoff_def add.commute)

text \<open>
  Claim C3, as the code has it. An operation that fails with a rate-limit fault exactly
  \<open>k\<close> times, \<open>k < maxRetries\<close>, and then succeeds: the policy returns the success value
  after \<open>k + 1\<close> invocations, and between consecutive invocations it sleeps
  \<open>min (1000 * 2 ^ i) 30000\<close> milliseconds for \<open>i = 1, \<dots>, k\<close>: 2000, 4000, 8000, 16000,
  then 30000.
\<close>

theorem retry_succeeds_after_rate_limits:
  assumes "after_rate_limits fn k w = Some (Inr v, w')" and "int k < maxRetries"
  shows "retryWithBackoff fn maxRetries \<lparr>world = w, trace = []\<rparr>
           = (Inr v, \<lparr>world = w',
                trace = concat (map (\<lambda>i. [Invoke, Sleep (min (1000 * 2 ^ i) 30000)]) [1..<Suc k])
                          @ [Invoke]\<rparr>)
         \<and> attempts (trace (snd (retryWithBackoff fn maxRetries \<lparr>world = w, trace = []\<rparr>))) = k + 1
         \<and> sleeps (trace (snd (retryWithBackoff fn maxRetries \<lparr>world = w, trace = []\<rparr>)))
             = map (\<lambda>i. min (1000 * 2 ^ i) 30000) [1..<Suc k]"
proof -
  have run: "retryWithBackoff fn maxRetries \<lparr>world = w, trace = []\<rparr>
        = (Inr v, \<lparr>world = w', trace = backoff_trace 1 k\<rparr>)"
    using assms by (intro retry_settled) (simp_all add: settles_def)
  have at: "attempts (backoff_trace 1 k) = k + 1"
    by (simp add: attempts_backoff_trace)
  show ?thesis
    unfolding run snd_conv io.select_convs
    using backoff_trace_from_1 [of k] sleeps_from_1 [of k] at by (simp only: simp_thms)
qed

theorem retry_succeeds_after_rate_limits_witness:
  "after_rate_limits scripted 2 [Inl rate_limited, Inl rate_limited, Inr (7::int)] = Some (Inr 7, [])
   \<and> int 2 < 3
   \<and> retryWithBackoff scripted 3
         \<lparr>world = [Inl rate_limited, Inl rate_limited, Inr (7::int)], trace = []\<rparr>
       = (Inr 7, \<lparr>world = [], trace = [Invoke, Sleep 2000, Invoke, Sleep 4000, Invoke]\<rparr>)"
proof -
  have h: "after_rate_limits scripted 2 [Inl rate_limited, Inl rate_limited, Inr (7::int)]
             = Some (Inr 7, [])"
    by (simp add: numeral_2_eq_2 scripted_def rate_limited_def)
  have "[1..<Suc 2] = [1, 2]" by (simp add: upt_rec)
  then show ?thesis
    using h retry_succeeds_after_rate_limits [OF h, of 3] by simp
qed

text \<open>
  Claim C3 as stated fails: after one rate-limit fault the policy sleeps 2000 ms, not
  1000 ms, since the loop index starts at 1.
\<close>

theorem retry_first_delay_counterexample:
  "after_rate_limits scripted 1 [Inl rate_limited, Inr (7::int)] = Some (Inr 7, [])
   \<and> int 1 < 3
   \<and> retryWithBackoff scripted 3 \<lparr>world = [Inl rate_limited, Inr (7::int)], trace = []\<rparr>
       = (Inr 7, \<lparr>world = [], trace = [Invoke, Sleep 2000, Invoke]\<rparr>)
   \<and> sleeps (trace (snd (retryWithBackoff scripted 3
         \<lparr>world = [Inl rate_limited, Inr (7::int)], trace = []\<rparr>))) \<noteq> [1000]"
  by (simp add: retryWithBackoff_def retry_loop.simps invoke_def sleep_def scripted_def
      rate_limited_def backoff_delay_def)

text \<open>
  Claim C4, as the code has it. When the last permitted attempt (attempt number
  \<open>maxRetries\<close>) also fails with a rate-limit fault, the policy fails with that fault
  itself, status 429, after \<open>maxRetries\<close> invocations. A fault that is not a rate limit
  is rethrown at once: the failing invocation is the last event of the run, with no
  sleep and no further invocation after it.
\<close>

theorem retry_failure_propagates:
  assumes "after_rate_limits fn k w = Some (Inl e, w')"
  shows "(status e = Some 429 \<and> int k + 1 = maxRetries \<longrightarrow>
            retryWithBackoff fn maxRetries \<lparr>world = w, trace = []\<rparr>
              = (Inl e, \<lparr>world = w',
                   trace = concat (map (\<lambda>i. [Invoke, Sleep (min (1000 * 2 ^ i) 30000)]) [1..<Suc k])
                             @ [Invoke]\<rparr>)
            \<and> int (attempts (trace (snd (retryWithBackoff fn maxRetries \<lparr>world = w, trace = []\<rparr>))))
                = maxRetries)
       \<and> (status e \<noteq> Some 429 \<and> int k < maxRetries \<longrightarrow>
            retryWithBackoff fn maxRetries \<lparr>world = w, trace = []\<rparr>
              = (Inl e, \<lparr>world = w',
                   trace = concat (map (\<lambda>i. [Invoke, Sleep (min (1000 * 2 ^ i) 30000)]) [1..<Suc k])
                             @ [Invoke]\<rparr>))"
proof (intro conjI impI)
  assume h: "status e = Some 429 \<and> int k + 1 = maxRetries"
  have run: "retryWithBackoff fn maxRetries \<lparr>world = w, trace = []\<rparr>
        = (Inl e, \<lparr>world = w', trace = backoff_trace 1 k\<rparr>)"
    using assms h by (intro retry_settled) (auto simp: settles_def)
  show "retryWithBackoff fn maxRetries \<lparr>world = w, trace = []\<rparr>
          = (Inl e, \<lparr>world = w',
               trace = concat (map (\<lambda>i. [Invoke, Sleep (min (1000 * 2 ^ i) 30000)]) [1..<Suc k])
                         @ [Invoke]\<rparr>)"
    unfolding run using backoff_trace_from_1 [of k] by (simp only:)
  show "int (attempts (trace (snd (retryWithBackoff fn maxRetries \<lparr>world = w, trace = []\<rparr>))))
          = maxRetries"
    unfolding run using h by (simp add: attempts_backoff_trace)
next
  assume h: "status e \<noteq> Some 429 \<and> int k < maxRetries"
  have run: "retryWithBackoff fn maxRetries \<lparr>world = w, trace = []\<rparr>
        = (Inl e, \<lparr>world = w', trace = backoff_trace 1 k\<rparr>)"
    using assms h by (intro retry_settled) (auto simp: settles_def)
  show "retryWithBackoff fn maxRetries \<lparr>world = w, trace = []\<rparr>
          = (Inl e, \<lparr>world = w',
               trace = concat (map (\<lambda>i. [Invoke, Sleep (min (1000 * 2 ^ i) 30000)]) [1..<Suc k])
                         @ [Invoke]\<rparr>)"
    unfolding run using backoff_trace_from_1 [of k] by (simp only:)
qed

theorem retry_failure_propagates_witness:
  "after_rate_limits scripted 2 [Inl rate_limited, Inl rate_limited, Inl rate_limited, Inr (7::int)]
     = Some (Inl rate_limited, [Inr 7])
   \<and> status rate_limited = Some 429 \<and> int 2 + 1 = 3
   \<and> retryWithBackoff scripted 3
         \<lparr>world = [Inl rate_limited, Inl rate_limited, Inl rate_limited, Inr (7::int)], trace = []\<rparr>
       = (Inl rate_limited,
          \<lparr>world = [Inr 7], trace = [Invoke, Sleep 2000, Invoke, Sleep 4000, Invoke]\<rparr>)
   \<and> after_rate_limits scripted 0 [Inl (JsError ''Unauthorized'' (Some 401)), Inr (7::int)]
       = Some (Inl (JsError ''Unauthorized'' (Some 401)), [Inr 7])
   \<and> status (JsError ''Unauthorized'' (Some 401)) \<noteq> Some 429 \<and> int 0 < 3
   \<and> retryWithBackoff scripted 3
         \<lparr>world = [Inl (JsError ''Unauthorized'' (Some 401)), Inr (7::int)], trace = []\<rparr>
       = (Inl (JsError ''Unauthorized'' (Some 401)), \<lparr>world = [Inr 7], trace = [Invoke]\<rparr>)"
proof -
  have h1: "after_rate_limits scripted 2
              [Inl rate_limited, Inl rate_limited, Inl rate_limited, Inr (7::int)]
            = Some (Inl rate_limited, [Inr 7])"
    by (simp add: numeral_2_eq_2 scripted_def rate_limited_def)
  have h2: "after_rate_limits scripted 0 [Inl (JsError ''Unauthorized'' (Some 401)), Inr (7::int)]
            = Some (Inl (JsError ''Unauthorized'' (Some 401)), [Inr 7])"
    by (simp add: scripted_def)
  have u: "[1..<Suc 2] = [1, 2]" by (simp add: upt_rec)
  have s: "status rate_limited = Some 429" by (simp add: rate_limited_def)
  show ?thesis
    using h1 h2 s u retry_failure_propagates [OF h1, of 3] retry_failure_propagates [OF h2, of 3]
    by simp
qed

text \<open>
  Claim C4 as stated fails: three rate-limit faults with \<open>maxRetries = 3\<close> end in the
  third fault itself, not in the error "Max retries exceeded".
\<close>

theorem retry_exhausted_counterexample:
  "retryWithBackoff scripted 3
       \<lparr>world = [Inl rate_limited, Inl rate_limited, Inl rate_limited :: js_error + int], trace = []\<rparr>
     = (Inl (JsError ''Too Many Requests'' (Some 429)),
        \<lparr>world = [], trace = [Invoke, Sleep 2000, Invoke, Sleep 4000, Invoke]\<rparr>)
   \<and> fst (retryWithBackoff scripted 3
       \<lparr>world = [Inl rate_limited, Inl rate_limited, Inl rate_limited :: js_error + int], trace = []\<rparr>)
     \<noteq> Inl (JsError ''Max retries exceeded'' None)"
  by (simp add: retryWithBackoff_def retry_loop.simps invoke_def sleep_def scripted_def
      rate_limited_def backoff_delay_def)

text \<open>
  Claim C10. With \<open>maxRetries\<close> zero or negative the loop body never runs: the wrapped
  operation is not invoked (the world and the trace are unchanged) and the call fails
  with the error "Max retries exceeded".
\<close>

theorem retry_nonpositive_never_invokes:
  "maxRetries \<le> 0 \<Longrightarrow>
     retryWithBackoff fn maxRetries s = (Inl (JsError ''Max retries exceeded'' None), s)"
  by (simp add: retryWithBackoff_def retry_loop.simps)

theorem retry_nonpositive_never_invokes_witness:
  "(0::int) \<le> 0 \<and>
   retryWithBackoff scripted 0 \<lparr>world = [Inr (7::int)], trace = []\<rparr>
     = (Inl (JsError ''Max retries exceeded'' None), \<lparr>world = [Inr 7], trace = []\<rparr>)"
  using retry_nonpositive_never_invokes
    [of 0 scripted "\<lparr>world = [Inr (7::int)], trace = []\<rparr>"]
  by simp

section \<open>Properties of the orchestrator\<close>

lemma retry_loop_success_from_fn:
  "retry_loop fn m a s = (Inr v, s') \<Longrightarrow> \<exists>w w'. fn w = (Inr v, w')"
proof (induction fn m a s rule: retry_loop.induct)
  case (1 fn maxRetries attempt s)
  show ?case
  proof (cases "attempt \<le> maxRetries")
    case False
    with "1.prems" show ?thesis by (simp add: retry_loop.simps [of fn maxRetries attempt s])
  next
    case True
    obtain r s1 where inv: "invoke fn s = (r, s1)" by (cases "invoke fn s")
    show ?thesis
    proof (cases r)
      case (Inr x)
      with inv True "1.prems" have "x = v"
        by (simp add: retry_loop.simps [of fn maxRetries attempt s])
      with inv Inr show ?thesis
        by (auto simp: invoke_def split: prod.splits)
    next
      case (Inl e)
      show ?thesis
      proof (cases "status e = Some 429 \<and> attempt < maxRetries")
        case False
        with inv Inl True "1.prems" show ?thesis
          by (auto simp add: retry_loop.simps [of fn maxRetries attempt s])
      next
        case again: True
        with inv Inl True "1.prems"
        have "retry_loop fn maxRetries (attempt + 1) (sleep (backoff_delay attempt) s1) = (Inr v, s')"
          by (simp add: retry_loop.simps [of fn maxRetries attempt s])
        then show ?thesis
          using "1.IH" [OF True inv [symmetric] Inl again] by blast
      qed
    qed
  qed
qed

lemma callModel_one_message:
  assumes "callModel env state s = (Inr upd, s')"
  shows "\<exists>m. upd = [m]"
proof -
  obtain w w' where
    "(case model_invoke env (messages state) w of
        (Inl e, w') \<Rightarrow> (Inl e, w')
      | (Inr result, w') \<Rightarrow> (Inr [result], w')) = (Inr upd, w')"
    using retry_loop_success_from_fn assms
    unfolding callModel_def retryWithBackoff_def by fast
  then show ?thesis
    by (cases "model_invoke env (messages state) w") (auto split: sum.splits)
qed

lemma shouldContinue_last:
  "messages st = ms @ [m] \<Longrightarrow>
   shouldContinue st
     = Inr (if role_of m = Ai \<and> (case tool_calls m of Some tcs \<Rightarrow> tcs \<noteq> [] | None \<Rightarrow> False)
            then Tools else END)"
  by (cases m) (auto simp: shouldContinue_def split: option.splits)

text \<open>
  Claim C1. From a state whose last message is \<open>m\<close>, the transition function goes to
  \<open>tools\<close> exactly when \<open>m\<close> is an ai-role message with a non-empty list of tool calls,
  and to \<open>end\<close> otherwise. It is the edge out of \<open>agent\<close>, the edge out of \<open>tools\<close> leads
  back to \<open>agent\<close>, and after every agent step that returns, the state ends with the
  one message the step produced, so the transition is decided by that message.
\<close>

theorem transition_after_agent:
  "shouldContinue \<lparr>messages = ms @ [m]\<rparr>
     = Inr (if role_of m = Ai \<and> (case tool_calls m of Some tcs \<Rightarrow> tcs \<noteq> [] | None \<Rightarrow> False)
            then Tools else END)
   \<and> next_node Agent st = shouldContinue st
   \<and> next_node Tools st = Inr Agent
   \<and> (callModel env st s = (Inr upd, s') \<longrightarrow>
        (\<exists>m. upd = [m] \<and>
           next_node Agent (st\<lparr>messages := reducer (messages st) upd\<rparr>)
             = Inr (if role_of m = Ai \<and> (case tool_calls m of Some tcs \<Rightarrow> tcs \<noteq> [] | None \<Rightarrow> False)
                    then Tools else END)))"
proof (intro conjI impI)
  assume "callModel env st s = (Inr upd, s')"
  then obtain m where "upd = [m]" using callModel_one_message by blast
  then show "\<exists>m. upd = [m] \<and>
           next_node Agent (st\<lparr>messages := reducer (messages st) upd\<rparr>)
             = Inr (if role_of m = Ai \<and> (case tool_calls m of Some tcs \<Rightarrow> tcs \<noteq> [] | None \<Rightarrow> False)
                    then Tools else END)"
    using shouldContinue_last [of "st\<lparr>messages := messages st @ [m]\<rparr>" "messages st" m]
    by (simp add: next_node_def reducer_def)
next
  show "shouldContinue \<lparr>messages = ms @ [m]\<rparr>
     = Inr (if role_of m = Ai \<and> (case tool_calls m of Some tcs \<Rightarrow> tcs \<noteq> [] | None \<Rightarrow> False)
            then Tools else END)"
    by (rule shouldContinue_last) simp
qed (simp_all add: next_node_def)

theorem transition_after_agent_witness:
  "callModel demo_env \<lparr>messages = [HumanMessage ''Any sofas?'']\<rparr> \<lparr>world = 1, trace = []\<rparr>
     = (Inr [AIMessage [] (Some [\<lparr>tc_id = ''call'', tc_name = ''item_lookup'',
                                  tc_args = JObject [(''query'', JString ''sofa'')]\<rparr>])],
        \<lparr>world = 0, trace = [Invoke]\<rparr>)
   \<and> next_node Agent
         \<lparr>messages = [HumanMessage ''Any sofas?'',
                      AIMessage [] (Some [\<lparr>tc_id = ''call'', tc_name = ''item_lookup'',
                                           tc_args = JObject [(''query'', JString ''sofa'')]\<rparr>])]\<rparr>
       = Inr Tools
   \<and> shouldContinue \<lparr>messages = [HumanMessage ''Any sofas?'', AIMessage ''Three.'' (Some [])]\<rparr>
       = Inr END
   \<and> shouldContinue \<lparr>messages = [HumanMessage ''Any sofas?'', ToolMessage ''{}'' ''call'']\<rparr>
       = Inr END"
proof -
  have h: "callModel demo_env \<lparr>messages = [HumanMessage ''Any sofas?'']\<rparr> \<lparr>world = 1, trace = []\<rparr>
     = (Inr [AIMessage [] (Some [\<lparr>tc_id = ''call'', tc_name = ''item_lookup'',
                                  tc_args = JObject [(''query'', JString ''sofa'')]\<rparr>])],
        \<lparr>world = 0, trace = [Invoke]\<rparr>)"
    by (simp add: callModel_def retryWithBackoff_def retry_loop.simps invoke_def demo_env_def)
  show ?thesis
    using h
      transition_after_agent
        [where ms = "[HumanMessage ''Any sofas?'']" and m = "AIMessage ''Three.'' (Some [])"
           and env = demo_env and st = "\<lparr>messages = [HumanMessage ''Any sofas?'']\<rparr>"
           and s = "\<lparr>world = 1, trace = []\<rparr>"
           and upd = "[AIMessage [] (Some [\<lparr>tc_id = ''call'', tc_name = ''item_lookup'',
                                  tc_args = JObject [(''query'', JString ''sofa'')]\<rparr>])]"
           and s' = "\<lparr>world = 0, trace = [Invoke]\<rparr>"]
      transition_after_agent
        [where ms = "[HumanMessage ''Any sofas?'']" and m = "ToolMessage ''{}'' ''call''",
           THEN conjunct1]
    by (simp add: reducer_def)
qed

lemma retry_loop_failure_from_fn:
  "retry_loop fn m a s = (Inl e, s') \<Longrightarrow> a \<le> m \<Longrightarrow> \<exists>w w'. fn w = (Inl e, w')"
proof (induction fn m a s rule: retry_loop.induct)
  case (1 fn maxRetries attempt s)
  have le: "attempt \<le> maxRetries" by fact
  obtain r s1 where inv: "invoke fn s = (r, s1)" by (cases "invoke fn s")
  show ?case
  proof (cases r)
    case (Inr x)
    with inv le "1.prems" show ?thesis
      by (simp add: retry_loop.simps [of fn maxRetries attempt s])
  next
    case (Inl e1)
    show ?thesis
    proof (cases "status e1 = Some 429 \<and> attempt < maxRetries")
      case False
      with inv Inl le "1.prems" have "e1 = e"
        by (auto simp add: retry_loop.simps [of fn maxRetries attempt s])
      with inv Inl show ?thesis
        by (auto simp: invoke_def split: prod.splits)
    next
      case again: True
      with inv Inl le "1.prems"
      have "retry_loop fn maxRetries (attempt + 1) (sleep (backoff_delay attempt) s1) = (Inl e, s')"
        by (simp add: retry_loop.simps [of fn maxRetries attempt s])
      moreover have "attempt + 1 \<le> maxRetries" using again by simp
      ultimately show ?thesis
        using "1.IH" [OF le inv [symmetric] Inl again] by blast
    qed
  qed
qed

lemma callModel_fault:
  assumes "callModel env state s = (Inl e, s')"
  shows "\<exists>msgs w w'. model_invoke env msgs w = (Inl e, w')"
proof -
  obtain w w' where
    "(case model_invoke env (messages state) w of
        (Inl e, w') \<Rightarrow> (Inl e, w')
      | (Inr result, w') \<Rightarrow> (Inr [result], w')) = (Inl e, w')"
    using retry_loop_failure_from_fn [of _ 3 1 s e s'] assms
    unfolding callModel_def retryWithBackoff_def by fastforce
  then have "model_invoke env (messages state) w = (Inl e, w')"
    by (cases "model_invoke env (messages state) w") (auto split: sum.splits)
  then show ?thesis by blast
qed

lemma callModel_reply:
  assumes "callModel env state s = (Inr upd, s')"
  shows "\<exists>m w w'. upd = [m] \<and> model_invoke env (messages state) w = (Inr m, w')"
proof -
  obtain w w' where
    "(case model_invoke env (messages state) w of
        (Inl e, w') \<Rightarrow> (Inl e, w')
      | (Inr result, w') \<Rightarrow> (Inr [result], w')) = (Inr upd, w')"
    using retry_loop_success_from_fn assms
    unfolding callModel_def retryWithBackoff_def by fast
  then show ?thesis
    by (cases "model_invoke env (messages state) w") (auto split: sum.splits)
qed

lemma callModel_answers:
  assumes "model_invoke env (messages state) (world s) = (Inr m, w')"
  shows "callModel env state s = (Inr [m], s\<lparr>world := w', trace := trace s @ [Invoke]\<rparr>)"
  using assms
  by (simp add: callModel_def retryWithBackoff_def retry_loop.simps invoke_def)

lemma toolNode_ready:
  "ready Tools state \<Longrightarrow> \<exists>ms s'. toolNode env state s = (Inr ms, s')"
  by (auto simp: ready_def toolNode_def Let_def split: prod.splits)

lemma run_graph_END: "run_graph env limit END steps state s = (Inr state, steps, s)"
  by (simp add: run_graph.simps)

lemma run_graph_step:
  "nd \<noteq> END \<Longrightarrow> steps < limit \<Longrightarrow> exec_node env nd state s = (Inr upd, s1) \<Longrightarrow>
   next_node nd (state\<lparr>messages := reducer (messages state) upd\<rparr>) = Inr nd' \<Longrightarrow>
   run_graph env limit nd steps state s
     = run_graph env limit nd' (Suc steps) (state\<lparr>messages := reducer (messages state) upd\<rparr>) s1"
  by (simp add: run_graph.simps [of env limit nd steps state s] Let_def)

lemma run_graph_fault:
  "nd \<noteq> END \<Longrightarrow> steps < limit \<Longrightarrow> exec_node env nd state s = (Inl e, s1) \<Longrightarrow>
   run_graph env limit nd steps state s = (Inl e, Suc steps, s1)"
  by (simp add: run_graph.simps [of env limit nd steps state s])

lemma run_graph_limit:
  "nd \<noteq> END \<Longrightarrow> limit \<le> steps \<Longrightarrow>
   run_graph env limit nd steps state s = (Inl RecursionLimitExceeded, steps, s)"
  by (simp add: run_graph.simps [of env limit nd steps state s])

lemma run_graph_outcome:
  "run_graph env limit nd steps state s = (r, n, s') \<Longrightarrow> steps \<le> limit \<Longrightarrow> ready nd state \<Longrightarrow>
   n \<le> limit \<and>
   (case r of
      Inr final \<Rightarrow>
        steps < n \<and> shouldContinue final = Inr END \<and> messages final \<noteq> []
        \<and> (\<exists>msgs w w'. model_invoke env msgs w = (Inr (last (messages final)), w'))
    | Inl e \<Rightarrow>
        (e = RecursionLimitExceeded \<and> n = limit)
        \<or> (\<exists>msgs w w'. model_invoke env msgs w = (Inl e, w')))"
proof (induction "limit - steps" arbitrary: nd steps state s)
  case 0
  then have "limit \<le> steps" and nd: "nd \<noteq> END" by (auto simp: ready_def)
  with "0.prems" show ?case by (auto simp: run_graph_limit)
next
  case (Suc k)
  then have lt: "steps < limit" and k: "k = limit - Suc steps" by simp_all
  have nd: "nd \<noteq> END" using Suc.prems(3) by (auto simp: ready_def)
  show ?case
  proof (cases "nd = Agent")
    case True
    obtain x s1 where ex: "callModel env state s = (x, s1)" by (cases "callModel env state s")
    show ?thesis
    proof (cases x)
      case (Inl e)
      then have "run_graph env limit nd steps state s = (Inl e, Suc steps, s1)"
        using run_graph_fault [OF nd lt, of env state s e s1] ex True by (simp add: exec_node_def)
      moreover have "\<exists>msgs w w'. model_invoke env msgs w = (Inl e, w')"
        using callModel_fault ex Inl by fast
      ultimately show ?thesis using Suc.prems(1) lt by auto
    next
      case (Inr upd)
      then obtain m w w' where upd: "upd = [m]"
        and rep: "model_invoke env (messages state) w = (Inr m, w')"
        using callModel_reply ex by blast
      define state' where "state' = state\<lparr>messages := reducer (messages state) upd\<rparr>"
      have ms: "messages state' = messages state @ [m]"
        by (simp add: state'_def reducer_def upd)
      have exn: "exec_node env nd state s = (Inr upd, s1)"
        using ex Inr True by (simp add: exec_node_def)
      show ?thesis
      proof (cases "role_of m = Ai \<and> (case tool_calls m of Some tcs \<Rightarrow> tcs \<noteq> [] | None \<Rightarrow> False)")
        case False
        then have sc: "shouldContinue state' = Inr END"
          using shouldContinue_last [OF ms] by simp
        then have "next_node nd state' = Inr END" using True by (simp add: next_node_def)
        then have "run_graph env limit nd steps state s = (Inr state', Suc steps, s1)"
          using run_graph_step [OF nd lt exn, of END] by (simp add: state'_def run_graph_END)
        with Suc.prems(1) have "r = Inr state'" "n = Suc steps" by simp_all
        then show ?thesis using sc ms rep lt by auto
      next
        case tools: True
        then have sc: "shouldContinue state' = Inr Tools"
          using shouldContinue_last [OF ms] by simp
        then have nx: "next_node nd state' = Inr Tools" using True by (simp add: next_node_def)
        have run: "run_graph env limit Tools (Suc steps) state' s1 = (r, n, s')"
          using run_graph_step [OF nd lt exn, of Tools] nx Suc.prems(1) by (simp add: state'_def)
        have rd: "ready Tools state'"
          using tools ms by (auto simp: ready_def split: option.splits)
        have "Suc steps \<le> limit" using lt by simp
        from Suc.hyps(1) [OF k run this rd] show ?thesis
          by (auto split: sum.splits)
      qed
    qed
  next
    case False
    then have tl: "nd = Tools" and rdy: "ready Tools state"
      using Suc.prems(3) by (auto simp: ready_def)
    obtain ms s1 where tn: "toolNode env state s = (Inr ms, s1)"
      using toolNode_ready [OF rdy] by blast
    define state' where "state' = state\<lparr>messages := reducer (messages state) ms\<rparr>"
    have exn: "exec_node env nd state s = (Inr ms, s1)"
      using tn tl by (simp add: exec_node_def)
    have nx: "next_node nd state' = Inr Agent" using tl by (simp add: next_node_def)
    have run: "run_graph env limit Agent (Suc steps) state' s1 = (r, n, s')"
      using run_graph_step [OF nd lt exn, of Agent] nx Suc.prems(1) by (simp add: state'_def)
    have rd: "ready Agent state'" by (simp add: ready_def)
    have "Suc steps \<le> limit" using lt by simp
    from Suc.hyps(1) [OF k run this rd] show ?thesis
      by (auto split: sum.splits)
  qed
qed

lemma run_graph_loops:
  assumes loop: "\<forall>msgs w. \<exists>c tcs w'.
      model_invoke env msgs w = (Inr (AIMessage c (Some tcs)), w') \<and> tcs \<noteq> []"
  shows "steps \<le> limit \<Longrightarrow> ready nd state \<Longrightarrow>
    \<exists>s'. run_graph env limit nd steps state s = (Inl RecursionLimitExceeded, limit, s')"
proof (induction "limit - steps" arbitrary: nd steps state s)
  case 0
  then have "limit = steps" and nd: "nd \<noteq> END" by (auto simp: ready_def)
  then show ?case by (simp add: run_graph_limit)
next
  case (Suc k)
  then have lt: "steps < limit" and k: "k = limit - Suc steps" by simp_all
  have le: "Suc steps \<le> limit" using lt by simp
  have nd: "nd \<noteq> END" using Suc.prems(2) by (auto simp: ready_def)
  show ?case
  proof (cases "nd = Agent")
    case True
    obtain c tcs w' where rep:
      "model_invoke env (messages state) (world s) = (Inr (AIMessage c (Some tcs)), w')"
      and tcs: "tcs \<noteq> []"
      using loop by blast
    define s1 where "s1 = s\<lparr>world := w', trace := trace s @ [Invoke]\<rparr>"
    define state' where
      "state' = state\<lparr>messages := reducer (messages state) [AIMessage c (Some tcs)]\<rparr>"
    have exn: "exec_node env nd state s = (Inr [AIMessage c (Some tcs)], s1)"
      using callModel_answers [OF rep] True by (simp add: exec_node_def s1_def)
    have ms: "messages state' = messages state @ [AIMessage c (Some tcs)]"
      by (simp add: state'_def reducer_def)
    have "shouldContinue state' = Inr Tools"
      using shouldContinue_last [OF ms] tcs by simp
    then have nx: "next_node nd state' = Inr Tools" using True by (simp add: next_node_def)
    have run: "run_graph env limit nd steps state s = run_graph env limit Tools (Suc steps) state' s1"
      using run_graph_step [OF nd lt exn, of Tools] nx by (simp add: state'_def)
    have rd: "ready Tools state'" using ms by (simp add: ready_def)
    show ?thesis unfolding run using Suc.hyps(1) [OF k le rd] .
  next
    case False
    then have tl: "nd = Tools" and rdy: "ready Tools state"
      using Suc.prems(2) by (auto simp: ready_def)
    obtain ms s1 where tn: "toolNode env state s = (Inr ms, s1)"
      using toolNode_ready [OF rdy] by blast
    define state' where "state' = state\<lparr>messages := reducer (messages state) ms\<rparr>"
    have exn: "exec_node env nd state s = (Inr ms, s1)"
      using tn tl by (simp add: exec_node_def)
    have nx: "next_node nd state' = Inr Agent" using tl by (simp add: next_node_def)
    have run: "run_graph env limit nd steps state s = run_graph env limit Agent (Suc steps) state' s1"
      using run_graph_step [OF nd lt exn, of Agent] nx by (simp add: state'_def)
    have rd: "ready Agent state'" by (simp add: ready_def)
    show ?thesis unfolding run using Suc.hyps(1) [OF k le rd] .
  qed
qed

text \<open>
  Claim C2. For every conversation restored for the thread, every query and every
  behaviour of the model and the tools, the invocation made by \<open>callAgent\<close> returns
  (it is a total function) after at most 15 node executions, in one of three ways:
  with a final state, reached after at least one node execution, whose last message
  is a reply of the model from which the transition function goes to \<open>end\<close>, and
  \<open>callAgent\<close> returns its content; with \<open>RecursionLimitExceeded\<close> after exactly 15
  node executions; or with a fault of the model call. In both error cases \<open>callAgent\<close>
  fails with the classified error. A model that asks for tools on every call always
  ends in \<open>RecursionLimitExceeded\<close> after exactly 15 node executions.
\<close>

theorem callAgent_within_limit:
  "(\<exists>r n s'.
      callAgent_invoke env query thread_id s = (r, n, s') \<and> n \<le> 15 \<and>
      (case r of
         Inr final \<Rightarrow>
           1 \<le> n \<and> shouldContinue final = Inr END \<and> messages final \<noteq> []
           \<and> (\<exists>msgs w w'. model_invoke env msgs w = (Inr (last (messages final)), w'))
           \<and> callAgent env query thread_id s = (Inr (content (last (messages final))), s')
       | Inl e \<Rightarrow>
           callAgent env query thread_id s = (Inl (classify e), s')
           \<and> ((e = RecursionLimitExceeded \<and> n = 15)
                \<or> (\<exists>msgs w w'. model_invoke env msgs w = (Inl e, w')))))
   \<and> ((\<forall>msgs w. \<exists>c tcs w'.
          model_invoke env msgs w = (Inr (AIMessage c (Some tcs)), w') \<and> tcs \<noteq> [])
        \<longrightarrow> (\<exists>s'. callAgent_invoke env query thread_id s = (Inl RecursionLimitExceeded, 15, s')
                  \<and> callAgent env query thread_id s = (Inl (classify RecursionLimitExceeded), s')))"
proof -
  define state0 where "state0 =
    \<lparr>messages = reducer (load_checkpoint env thread_id (world s)) [HumanMessage query]\<rparr>"
  have inv: "callAgent_invoke env query thread_id s = run_graph env 15 Agent 0 state0 s"
    by (simp add: callAgent_invoke_def app_invoke_def next_node_def state0_def Let_def)
  have rd: "ready Agent state0" by (simp add: ready_def)
  obtain r n s' where run: "run_graph env 15 Agent 0 state0 s = (r, n, s')"
    by (cases "run_graph env 15 Agent 0 state0 s")
  note out = run_graph_outcome [OF run _ rd]
  have first: "\<exists>r n s'.
      callAgent_invoke env query thread_id s = (r, n, s') \<and> n \<le> 15 \<and>
      (case r of
         Inr final \<Rightarrow>
           1 \<le> n \<and> shouldContinue final = Inr END \<and> messages final \<noteq> []
           \<and> (\<exists>msgs w w'. model_invoke env msgs w = (Inr (last (messages final)), w'))
           \<and> callAgent env query thread_id s = (Inr (content (last (messages final))), s')
       | Inl e \<Rightarrow>
           callAgent env query thread_id s = (Inl (classify e), s')
           \<and> ((e = RecursionLimitExceeded \<and> n = 15)
                \<or> (\<exists>msgs w w'. model_invoke env msgs w = (Inl e, w'))))"
  proof (intro exI conjI)
    show "callAgent_invoke env query thread_id s = (r, n, s')" using inv run by simp
    show "n \<le> 15" using out by simp
    show "case r of
         Inr final \<Rightarrow>
           1 \<le> n \<and> shouldContinue final = Inr END \<and> messages final \<noteq> []
           \<and> (\<exists>msgs w w'. model_invoke env msgs w = (Inr (last (messages final)), w'))
           \<and> callAgent env query thread_id s = (Inr (content (last (messages final))), s')
       | Inl e \<Rightarrow>
           callAgent env query thread_id s = (Inl (classify e), s')
           \<and> ((e = RecursionLimitExceeded \<and> n = 15)
                \<or> (\<exists>msgs w w'. model_invoke env msgs w = (Inl e, w')))"
    proof (cases r)
      case (Inl e)
      then have "callAgent env query thread_id s = (Inl (classify e), s')"
        using inv run by (simp add: callAgent_def)
      then show ?thesis using out Inl by simp
    next
      case (Inr final)
      then have ne: "messages final \<noteq> []" using out by simp
      then have "callAgent env query thread_id s = (Inr (content (last (messages final))), s')"
        using inv run Inr by (simp add: callAgent_def Let_def)
      then show ?thesis using out Inr by auto
    qed
  qed
  have second: "\<exists>s'. callAgent_invoke env query thread_id s = (Inl RecursionLimitExceeded, 15, s')
                  \<and> callAgent env query thread_id s = (Inl (classify RecursionLimitExceeded), s')"
    if loop: "\<forall>msgs w. \<exists>c tcs w'.
          model_invoke env msgs w = (Inr (AIMessage c (Some tcs)), w') \<and> tcs \<noteq> []"
  proof -
    obtain s2 where "run_graph env 15 Agent 0 state0 s = (Inl RecursionLimitExceeded, 15, s2)"
      using run_graph_loops [OF loop _ rd, of 0 15 s] by auto
    then show ?thesis using inv by (simp add: callAgent_def)
  qed
  show ?thesis using first second by blast
qed

theorem callAgent_within_limit_witness:
  "(\<forall>msgs w. \<exists>c tcs w'.
       model_invoke looping_env msgs w = (Inr (AIMessage c (Some tcs)), w') \<and> tcs \<noteq> [])
   \<and> callAgent_invoke looping_env ''Any sofas?'' ''t1'' \<lparr>world = (), trace = []\<rparr>
       = (Inl RecursionLimitExceeded, 15,
          \<lparr>world = (), trace = [Invoke, Invoke, Invoke, Invoke, Invoke, Invoke, Invoke, Invoke]\<rparr>)
   \<and> callAgent looping_env ''Any sofas?'' ''t1'' \<lparr>world = (), trace = []\<rparr>
       = (Inl (JsError ''Agent failed: Recursion limit reached without hitting a stop condition'' None),
          \<lparr>world = (), trace = [Invoke, Invoke, Invoke, Invoke, Invoke, Invoke, Invoke, Invoke]\<rparr>)
   \<and> fst (snd (callAgent_invoke demo_env ''Any sofas?'' ''t1'' \<lparr>world = 7, trace = []\<rparr>)) = 15
   \<and> callAgent demo_env ''Any sofas?'' ''t1'' \<lparr>world = 7, trace = []\<rparr>
       = (Inr ''We have three sofas.'',
          \<lparr>world = 0, trace = [Invoke, Invoke, Invoke, Invoke, Invoke, Invoke, Invoke, Invoke]\<rparr>)
   \<and> callAgent demo_env ''Any sofas?'' ''t1'' \<lparr>world = 1, trace = []\<rparr>
       = (Inr ''We have three sofas.'', \<lparr>world = 0, trace = [Invoke, Invoke]\<rparr>)"
proof -
  have loop: "\<forall>msgs w. \<exists>c tcs w'.
       model_invoke looping_env msgs w = (Inr (AIMessage c (Some tcs)), w') \<and> tcs \<noteq> []"
    by (simp add: looping_env_def)
  have a: "callAgent_invoke looping_env ''Any sofas?'' ''t1'' \<lparr>world = (), trace = []\<rparr>
       = (Inl RecursionLimitExceeded, 15,
          \<lparr>world = (), trace = [Invoke, Invoke, Invoke, Invoke, Invoke, Invoke, Invoke, Invoke]\<rparr>)"
    by code_simp
  have b: "callAgent demo_env ''Any sofas?'' ''t1'' \<lparr>world = 1, trace = []\<rparr>
       = (Inr ''We have three sofas.'', \<lparr>world = 0, trace = [Invoke, Invoke]\<rparr>)"
    by code_simp
  have c: "fst (snd (callAgent_invoke demo_env ''Any sofas?'' ''t1'' \<lparr>world = 7, trace = []\<rparr>)) = 15
     \<and> callAgent demo_env ''Any sofas?'' ''t1'' \<lparr>world = 7, trace = []\<rparr>
       = (Inr ''We have three sofas.'',
          \<lparr>world = 0, trace = [Invoke, Invoke, Invoke, Invoke, Invoke, Invoke, Invoke, Invoke]\<rparr>)"
    by code_simp
  from callAgent_within_limit
      [where env = looping_env and query = "''Any sofas?''" and thread_id = "''t1''"
         and s = "\<lparr>world = (), trace = []\<rparr>", THEN conjunct2] loop a
  have "callAgent looping_env ''Any sofas?'' ''t1'' \<lparr>world = (), trace = []\<rparr>
       = (Inl (classify RecursionLimitExceeded),
          \<lparr>world = (), trace = [Invoke, Invoke, Invoke, Invoke, Invoke, Invoke, Invoke, Invoke]\<rparr>)"
    by auto
  then show ?thesis
    using loop a b c by (simp add: classify_def RecursionLimitExceeded_def)
qed

section \<open>Properties of the inventory search tool\<close>








section \<open>Properties of the schema\<close>

text \<open>
  Claim C9, as the code has it. When the argument object has no \<open>n\<close>, the schema
  supplies \<open>n = 10\<close>, and the tool function's own default is 10 as well. When it has
  a number \<open>n\<close>, the schema accepts it whatever its value and passes it on unchanged:
  the declaration states no lower bound.
\<close>

theorem schema_default_and_numbers:
  "(map_of kvs ''query'' = Some (JString q) \<and> map_of kvs ''n'' = None
    \<longrightarrow> zod_parse item_lookup_schema (Some (JObject kvs))
          = Inr (Some (JObject [(''query'', JString q), (''n'', JNumber 10)])))
   \<and> (map_of kvs ''query'' = Some (JString q) \<and> map_of kvs ''n'' = Some (JNumber v)
    \<longrightarrow> zod_parse item_lookup_schema (Some (JObject kvs))
          = Inr (Some (JObject [(''query'', JString q), (''n'', JNumber v)])))
   \<and> itemLookupTool env \<lparr>sq_query = q, sq_n = None\<rparr> w
       = itemLookupTool env \<lparr>sq_query = q, sq_n = Some 10\<rparr> w"
  by (simp add: item_lookup_schema_def itemLookupTool_def)

theorem schema_default_and_numbers_witness:
  "map_of [(''query'', JString ''sofa'')] ''query'' = Some (JString ''sofa'')
   \<and> map_of [(''query'', JString ''sofa'')] ''n'' = None
   \<and> zod_parse item_lookup_schema (Some (JObject [(''query'', JString ''sofa'')]))
       = Inr (Some (JObject [(''query'', JString ''sofa''), (''n'', JNumber 10)]))
   \<and> map_of [(''n'', JNumber 3), (''query'', JString ''sofa'')] ''query'' = Some (JString ''sofa'')
   \<and> map_of [(''n'', JNumber 3), (''query'', JString ''sofa'')] ''n'' = Some (JNumber 3)
   \<and> zod_parse item_lookup_schema (Some (JObject [(''n'', JNumber 3), (''query'', JString ''sofa'')]))
       = Inr (Some (JObject [(''query'', JString ''sofa''), (''n'', JNumber 3)]))"
  using schema_default_and_numbers
      [where kvs = "[(''query'', JString ''sofa'')]" and q = "''sofa''" and v = 3,
        THEN conjunct1]
    schema_default_and_numbers
      [where kvs = "[(''n'', JNumber 3), (''query'', JString ''sofa'')]" and q = "''sofa''" and v = 3,
        THEN conjunct2, THEN conjunct1]
  by simp

text \<open>
  Claim C9 as stated fails: the schema accepts \<open>n = 0\<close> and \<open>n = - 5\<close>, which are not
  greater than 0.
\<close>

theorem schema_accepts_zero_counterexample:
  "zod_parse item_lookup_schema (Some (JObject [(''query'', JString ''sofa''), (''n'', JNumber 0)]))
     = Inr (Some (JObject [(''query'', JString ''sofa''), (''n'', JNumber 0)]))
   \<and> \<not> (0::int) > 0
   \<and> zod_parse item_lookup_schema (Some (JObject [(''query'', JString ''sofa''), (''n'', JNumber (- 5))]))
     = Inr (Some (JObject [(''query'', JString ''sofa''), (''n'', JNumber (- 5))]))
   \<and> \<not> (- 5::int) > 0"
  by (simp add: item_lookup_schema_def)

section \<open>Properties of the lexical fallback\<close>












end
